theory Spec2Isabelle
  imports Main "HOL-Library.Word"
begin

unbundle bit_operations_syntax

section \<open>Machine types\<close>

text \<open>
  \<^verbatim>\<open>size_t\<close> is the unsigned 64-bit integer of the LP64 platforms the library is built
  for: addition and subtraction wrap modulo \<open>2 ^ 64\<close>. A \<^verbatim>\<open>std::string\<close> is a sequence
  of bytes; \<open>string_size\<close> is \<^verbatim>\<open>std::string::size()\<close>, which reports the length as a
  \<^verbatim>\<open>size_t\<close>.
\<close>

type_synonym size_t = "64 word"

definition string_size :: "string \<Rightarrow> size_t" where
  "string_size str = of_nat (length str)"

text \<open>\<^verbatim>\<open>str.substr(0, n)\<close>: the first \<open>n\<close> characters, or all of them when there are fewer.
  Position 0 is never past the end, so the call cannot raise.\<close>

definition substr0 :: "string \<Rightarrow> size_t \<Rightarrow> string" where
  "substr0 str n = take (unat n) str"

text \<open>What a call can end in instead of a result.\<close>

datatype error =
  unsafe_read      \<comment> \<open>\<^verbatim>\<open>std::string(ptr, len)\<close> reading past the end of the array at \<^verbatim>\<open>ptr\<close>\<close>
| unsafe_copy      \<comment> \<open>\<^verbatim>\<open>memcpy\<close> of more bytes than the source or the destination object has\<close>
| out_of_range     \<comment> \<open>an exception of \<^verbatim>\<open>BufferList::remove_prefix\<close>\<close>
| runtime_error    \<comment> \<open>\<^verbatim>\<open>std::runtime_error\<close>\<close>

section \<open>BufferList\<close>

text \<open>
  Modelled from the spec: the class \<^verbatim>\<open>BufferList\<close> (\<^verbatim>\<open>libsponge/util/buffer.hh\<close>, with its
  methods \<^verbatim>\<open>append\<close>, \<^verbatim>\<open>size\<close>, \<^verbatim>\<open>concatenate\<close> and \<^verbatim>\<open>remove_prefix\<close>) is used by
  \<^verbatim>\<open>byte_stream.cc\<close> and is not among the sources. The specification's data model gives
  the buffer as an ordered FIFO sequence of bytes, appended to at the back and consumed
  from the front; a \<open>BufferList\<close> is modelled as that sequence.
\<close>

type_synonym BufferList = string

definition BufferList_of :: "string \<Rightarrow> BufferList" where
  "BufferList_of str = str"

definition append :: "BufferList \<Rightarrow> BufferList \<Rightarrow> BufferList" where
  "append b other = b @ other"

definition size_BufferList :: "BufferList \<Rightarrow> size_t" where
  "size_BufferList b = string_size b"

definition concatenate :: "BufferList \<Rightarrow> string" where
  "concatenate b = b"

text \<open>
  Modelled from the spec: \<^verbatim>\<open>BufferList::remove_prefix(n)\<close> removes the first \<open>n\<close> bytes
  when the list holds that many. What it does when \<open>n\<close> exceeds the bytes held is decided
  by the missing \<^verbatim>\<open>buffer.cc\<close> alone, so that behaviour is the parameter \<open>beyond\<close> of the
  model: the call returns with some contents (\<open>Inr\<close>), or it raises and leaves the list
  with some contents (\<open>Inl\<close>, the exception with what is left). Every theorem below that
  has \<open>beyond\<close> free holds for each choice of it.
\<close>

type_synonym beyond = "size_t \<Rightarrow> BufferList \<Rightarrow> error \<times> BufferList + BufferList"

definition remove_prefix ::
  "beyond \<Rightarrow> size_t \<Rightarrow> BufferList \<Rightarrow> error \<times> BufferList + BufferList" where
  "remove_prefix beyond n b =
     (if unat n \<le> length b then Inr (drop (unat n) b) else beyond n b)"

section \<open>ByteStream\<close>

text \<open>The private members of \<^verbatim>\<open>ByteStream\<close>, as \<^verbatim>\<open>byte_stream.cc\<close> uses them; the member
  \<^verbatim>\<open>_end_input\<close> is the field \<open>m_end_input\<close>.\<close>

record ByteStream =
  cap :: size_t
  dataStream :: BufferList
  writeByte :: size_t
  readByte :: size_t
  m_end_input :: bool

text \<open>
  \<^verbatim>\<open>ByteStream::ByteStream(const size_t capacity) : cap(capacity) {}\<close>: the constructor
  sets \<open>cap\<close> and has no path that raises.
\<close>

text \<open>
  Modelled from the spec: the initial values of the members other than \<open>cap\<close> come from
  their declarations in \<^verbatim>\<open>byte_stream.hh\<close>, which is not among the sources. By the
  specification a new stream has an empty buffer, both counters at zero and the
  end-of-input flag unset.
\<close>

definition ByteStream_new :: "size_t \<Rightarrow> ByteStream" where
  "ByteStream_new capacity =
     \<lparr>cap = capacity, dataStream = [], writeByte = 0, readByte = 0, m_end_input = False\<rparr>"

definition construct :: "size_t \<Rightarrow> error + ByteStream" where
  "construct capacity = Inr (ByteStream_new capacity)"

definition input_ended :: "ByteStream \<Rightarrow> bool" where
  "input_ended s = m_end_input s"

definition buffer_size :: "ByteStream \<Rightarrow> size_t" where
  "buffer_size s = size_BufferList (dataStream s)"

definition buffer_empty :: "ByteStream \<Rightarrow> bool" where
  "buffer_empty s = (buffer_size s = 0)"

definition eof :: "ByteStream \<Rightarrow> bool" where
  "eof s = (input_ended s \<and> buffer_empty s)"

definition bytes_written :: "ByteStream \<Rightarrow> size_t" where
  "bytes_written s = writeByte s"

definition bytes_read :: "ByteStream \<Rightarrow> size_t" where
  "bytes_read s = readByte s"

definition remaining_capacity :: "ByteStream \<Rightarrow> size_t" where
  "remaining_capacity s = cap s - buffer_size s"

text \<open>\<^verbatim>\<open>write\<close> returns the number of bytes accepted, with the stream after the call.\<close>

definition "write" :: "string \<Rightarrow> ByteStream \<Rightarrow> size_t \<times> ByteStream" where
  "write data s =
     (let len = min (remaining_capacity s) (string_size data)
      in (len, s\<lparr>dataStream := append (dataStream s) (BufferList_of (substr0 data len)),
                 writeByte := writeByte s + len\<rparr>))"

text \<open>
  \<^verbatim>\<open>peek_output\<close> is \<^verbatim>\<open>std::string(dataStream.concatenate().data(), len)\<close>, with no check
  of \<open>len\<close> against the bytes held (the comment in the source: the copy is unsafe, the
  bounds are checked in \<^verbatim>\<open>read\<close>). The array at \<^verbatim>\<open>data()\<close> holds the bytes of the
  concatenated string followed by one terminating zero byte: up to there the constructor
  copies \<open>len\<close> bytes. A larger \<open>len\<close> reads past the array, which has no defined result.
  The method is \<^verbatim>\<open>const\<close>: it returns a string and no stream.
\<close>

definition peek_output :: "size_t \<Rightarrow> ByteStream \<Rightarrow> error + string" where
  "peek_output len s =
     (let str = concatenate (dataStream s)
      in if unat len \<le> length str then Inr (take (unat len) str)
         else if unat len = Suc (length str) then Inr (str @ [CHR 0x00])
         else Inl unsafe_read)"

text \<open>
  \<^verbatim>\<open>pop_output\<close> is \<^verbatim>\<open>dataStream.remove_prefix(len); readByte+=len;\<close>. An exception of
  \<^verbatim>\<open>remove_prefix\<close> leaves the method before the counter is touched: the result is then
  the exception with the stream as it stands, \<open>dataStream\<close> being what \<^verbatim>\<open>remove_prefix\<close>
  left.
\<close>

definition pop_output ::
  "beyond \<Rightarrow> size_t \<Rightarrow> ByteStream \<Rightarrow> error \<times> ByteStream + ByteStream" where
  "pop_output beyond len s =
     (case remove_prefix beyond len (dataStream s) of
        Inl (e, d) \<Rightarrow> Inl (e, s\<lparr>dataStream := d\<rparr>)
      | Inr d \<Rightarrow> Inr (s\<lparr>dataStream := d, readByte := readByte s + len\<rparr>))"

definition read ::
  "beyond \<Rightarrow> size_t \<Rightarrow> ByteStream \<Rightarrow> error \<times> ByteStream + string \<times> ByteStream" where
  "read beyond len s =
     (let length = min (size_BufferList (dataStream s)) len
      in case peek_output length s of
           Inl e \<Rightarrow> Inl (e, s)
         | Inr str \<Rightarrow>
             (case pop_output beyond length s of
                Inl r \<Rightarrow> Inl r
              | Inr s' \<Rightarrow> Inr (str, s')))"

definition end_input :: "ByteStream \<Rightarrow> ByteStream" where
  "end_input s = s\<lparr>m_end_input := True\<rparr>"

text \<open>\<^verbatim>\<open>peek_output(n)\<close> followed by \<^verbatim>\<open>pop_output(n)\<close>, as a caller writes the two calls: the
  string peeked and the stream after the pop.\<close>

definition peek_then_pop ::
  "beyond \<Rightarrow> size_t \<Rightarrow> ByteStream \<Rightarrow> error \<times> ByteStream + string \<times> ByteStream" where
  "peek_then_pop beyond n s =
     (case peek_output n s of
        Inl e \<Rightarrow> Inl (e, s)
      | Inr str \<Rightarrow>
          (case pop_output beyond n s of
             Inl r \<Rightarrow> Inl r
           | Inr s' \<Rightarrow> Inr (str, s')))"

section \<open>Sequences of operations\<close>

text \<open>The operations of the claims, as a caller issues them one after another. \<open>step\<close> is
  the stream after one call (the values returned are dropped), \<open>run\<close> the stream after a
  sequence of calls; a call that ends in an error ends the run. An error comes with the
  stream as the call left it; \<open>peek_output\<close> is \<^verbatim>\<open>const\<close> and leaves it as it was.\<close>

datatype op = Write string | Peek_output size_t | Pop_output size_t | Read size_t | End_input

definition step :: "beyond \<Rightarrow> op \<Rightarrow> ByteStream \<Rightarrow> error \<times> ByteStream + ByteStream" where
  "step beyond x s =
     (case x of
        Write data \<Rightarrow> Inr (snd (write data s))
      | Peek_output len \<Rightarrow> (case peek_output len s of Inl e \<Rightarrow> Inl (e, s) | Inr str \<Rightarrow> Inr s)
      | Pop_output len \<Rightarrow> pop_output beyond len s
      | Read len \<Rightarrow> (case read beyond len s of Inl e \<Rightarrow> Inl e | Inr r \<Rightarrow> Inr (snd r))
      | End_input \<Rightarrow> Inr (end_input s))"

fun run :: "beyond \<Rightarrow> op list \<Rightarrow> ByteStream \<Rightarrow> error \<times> ByteStream + ByteStream" where
  "run beyond [] s = Inr s"
| "run beyond (x # xs) s =
     (case step beyond x s of Inl e \<Rightarrow> Inl e | Inr s' \<Rightarrow> run beyond xs s')"

text \<open>A call is within the buffer when a \<open>peek_output\<close> or \<open>pop_output\<close> asks for no more
  bytes than the stream holds at that moment. A call accepts nothing when it is no
  \<open>write\<close>, or a \<open>write\<close> that returns 0. \<open>calls_satisfy P\<close> says that \<open>P\<close> holds of
  every call of a sequence, at the stream the call finds, as far as the run gets.\<close>

fun within :: "op \<Rightarrow> ByteStream \<Rightarrow> bool" where
  "within (Peek_output len) s = (len \<le> buffer_size s)"
| "within (Pop_output len) s = (len \<le> buffer_size s)"
| "within (Write data) s = True"
| "within (Read len) s = True"
| "within End_input s = True"

fun accepts_nothing :: "op \<Rightarrow> ByteStream \<Rightarrow> bool" where
  "accepts_nothing (Write data) s = (fst (write data s) = 0)"
| "accepts_nothing (Peek_output len) s = True"
| "accepts_nothing (Pop_output len) s = True"
| "accepts_nothing (Read len) s = True"
| "accepts_nothing End_input s = True"

fun calls_satisfy :: "(op \<Rightarrow> ByteStream \<Rightarrow> bool) \<Rightarrow> beyond \<Rightarrow> op list \<Rightarrow> ByteStream \<Rightarrow> bool" where
  "calls_satisfy P beyond [] s = True"
| "calls_satisfy P beyond (x # xs) s =
     (P x s \<and> (case step beyond x s of Inl e \<Rightarrow> True | Inr s' \<Rightarrow> calls_satisfy P beyond xs s'))"

text \<open>The two invariants of the data model, read off the accessors.\<close>

definition invariant :: "ByteStream \<Rightarrow> bool" where
  "invariant s =
     (0 \<le> buffer_size s \<and> buffer_size s \<le> cap s
      \<and> bytes_written s - bytes_read s = buffer_size s)"

text \<open>The invariants in terms of the members: the bytes held are at most \<open>cap\<close>, and
  their number is the difference of the two counters.\<close>

definition consistent :: "ByteStream \<Rightarrow> bool" where
  "consistent s =
     (length (dataStream s) \<le> unat (cap s)
      \<and> writeByte s - readByte s = of_nat (length (dataStream s)))"

text \<open>
  The stream after a sequence of calls when the caller catches what a call raises and
  goes on with the same stream: \<open>stream_after\<close> is the stream a call leaves, returned or
  raised, and \<open>run_caught\<close> follows it through a sequence. \<open>pops_within\<close> says that every
  \<open>pop_output\<close> of the sequence asks for no more bytes than the stream holds at that
  moment; it says nothing of the other calls.
\<close>

definition stream_after :: "error \<times> ByteStream + ByteStream \<Rightarrow> ByteStream" where
  "stream_after r = (case r of Inl (e, s) \<Rightarrow> s | Inr s \<Rightarrow> s)"

fun run_caught :: "beyond \<Rightarrow> op list \<Rightarrow> ByteStream \<Rightarrow> ByteStream" where
  "run_caught beyond [] s = s"
| "run_caught beyond (x # xs) s = run_caught beyond xs (stream_after (step beyond x s))"

fun pop_within :: "op \<Rightarrow> ByteStream \<Rightarrow> bool" where
  "pop_within (Pop_output len) s = (len \<le> buffer_size s)"
| "pop_within (Peek_output len) s = True"
| "pop_within (Write data) s = True"
| "pop_within (Read len) s = True"
| "pop_within End_input s = True"

fun pops_within :: "beyond \<Rightarrow> op list \<Rightarrow> ByteStream \<Rightarrow> bool" where
  "pops_within beyond [] s = True"
| "pops_within beyond (x # xs) s =
     (pop_within x s \<and> pops_within beyond xs (stream_after (step beyond x s)))"

text \<open>Two instances for the parameter: a \<^verbatim>\<open>remove_prefix\<close> that raises and leaves the
  list as it found it, and one that raises after it has consumed every byte the list
  held.\<close>

definition raises :: beyond where
  "raises n b = Inl (out_of_range, b)"

definition drains :: beyond where
  "drains n b = Inl (out_of_range, [])"

section \<open>Address\<close>

text \<open>
  \<^verbatim>\<open>Address::from_ipv4_numeric\<close> and \<^verbatim>\<open>Address::ipv4_numeric\<close> move a \<^verbatim>\<open>sockaddr_in\<close>
  through the raw bytes of the address object with \<^verbatim>\<open>memcpy\<close>, so objects are modelled
  by their bytes. The byte order of the host is a parameter of the model.
\<close>

type_synonym byte = "8 word"

datatype endian = Little | Big

text \<open>The swap of the four bytes of a 32-bit value, as \<^verbatim>\<open><byteswap.h>\<close> writes it with
  masks and shifts; \<^verbatim>\<open>htobe32\<close> and \<^verbatim>\<open>be32toh\<close> of \<^verbatim>\<open><endian.h>\<close> are that swap on a
  little-endian host and the identity on a big-endian one.\<close>

definition bswap_32 :: "32 word \<Rightarrow> 32 word" where
  "bswap_32 x =
     drop_bit 24 (x AND 0xff000000) OR drop_bit 8 (x AND 0x00ff0000)
     OR push_bit 8 (x AND 0x0000ff00) OR push_bit 24 (x AND 0x000000ff)"

definition htobe32 :: "endian \<Rightarrow> 32 word \<Rightarrow> 32 word" where
  "htobe32 host x = (case host of Little \<Rightarrow> bswap_32 x | Big \<Rightarrow> x)"

definition be32toh :: "endian \<Rightarrow> 32 word \<Rightarrow> 32 word" where
  "be32toh host x = (case host of Little \<Rightarrow> bswap_32 x | Big \<Rightarrow> x)"

text \<open>The bytes of a 16-bit and of a 32-bit integer in memory, lowest address first, and
  the integer read back from such bytes.\<close>

fun store16_le :: "16 word \<Rightarrow> byte list" where
  "store16_le w = [ucast w, ucast (drop_bit 8 w)]"

fun load16_le :: "byte list \<Rightarrow> 16 word" where
  "load16_le [b0, b1] = ucast b0 OR push_bit 8 (ucast b1)"
| "load16_le bs = 0"

fun store32_le :: "32 word \<Rightarrow> byte list" where
  "store32_le w = [ucast w, ucast (drop_bit 8 w), ucast (drop_bit 16 w), ucast (drop_bit 24 w)]"

fun load32_le :: "byte list \<Rightarrow> 32 word" where
  "load32_le [b0, b1, b2, b3] =
     ucast b0 OR push_bit 8 (ucast b1) OR push_bit 16 (ucast b2) OR push_bit 24 (ucast b3)"
| "load32_le bs = 0"

definition store16 :: "endian \<Rightarrow> 16 word \<Rightarrow> byte list" where
  "store16 host w = (case host of Little \<Rightarrow> store16_le w | Big \<Rightarrow> rev (store16_le w))"

definition load16 :: "endian \<Rightarrow> byte list \<Rightarrow> 16 word" where
  "load16 host bs = (case host of Little \<Rightarrow> load16_le bs | Big \<Rightarrow> load16_le (rev bs))"

definition store32 :: "endian \<Rightarrow> 32 word \<Rightarrow> byte list" where
  "store32 host w = (case host of Little \<Rightarrow> store32_le w | Big \<Rightarrow> rev (store32_le w))"

definition load32 :: "endian \<Rightarrow> byte list \<Rightarrow> 32 word" where
  "load32 host bs = (case host of Little \<Rightarrow> load32_le bs | Big \<Rightarrow> load32_le (rev bs))"

text \<open>\<^verbatim>\<open>memcpy(dest, src, n)\<close>: the first \<open>n\<close> bytes of the object at \<open>dest\<close> become those of
  the object at \<open>src\<close>. Copying more bytes than either object has is no defined result.\<close>

definition memcpy :: "byte list \<Rightarrow> byte list \<Rightarrow> size_t \<Rightarrow> error + byte list" where
  "memcpy dest src n =
     (if unat n \<le> length src \<and> unat n \<le> length dest
      then Inr (take (unat n) src @ drop (unat n) dest)
      else Inl unsafe_copy)"

text \<open>
  The socket structures and constants of the system headers, as on Linux:
  \<^verbatim>\<open>sockaddr_in\<close> is 16 bytes, the family at offset 0 (two bytes), the port at offset 2
  (two bytes), \<^verbatim>\<open>sin_addr.s_addr\<close> at offset 4 (four bytes) and eight bytes of padding;
  \<^verbatim>\<open>sockaddr_storage\<close> is 128 bytes with its family at offset 0; \<^verbatim>\<open>AF_INET\<close> is 2.
\<close>

definition AF_INET :: "16 word" where
  "AF_INET = 2"

definition sizeof_sockaddr_in :: size_t where
  "sizeof_sockaddr_in = 16"

definition sizeof_sockaddr_storage :: size_t where
  "sizeof_sockaddr_storage = 128"

record sockaddr_in =
  sin_family :: "16 word"
  sin_port :: "16 word"
  s_addr :: "32 word"
  sin_zero :: "byte list"

text \<open>\<^verbatim>\<open>sockaddr_in ipv4_addr{}\<close>: every member zero.\<close>

definition sockaddr_in_zero :: sockaddr_in where
  "sockaddr_in_zero = \<lparr>sin_family = 0, sin_port = 0, s_addr = 0, sin_zero = replicate 8 0\<rparr>"

definition bytes_of_sockaddr_in :: "endian \<Rightarrow> sockaddr_in \<Rightarrow> byte list" where
  "bytes_of_sockaddr_in host sa =
     store16 host (sin_family sa) @ store16 host (sin_port sa)
     @ store32 host (s_addr sa) @ sin_zero sa"

definition sockaddr_in_of_bytes :: "endian \<Rightarrow> byte list \<Rightarrow> sockaddr_in" where
  "sockaddr_in_of_bytes host bs =
     \<lparr>sin_family = load16 host (take 2 bs),
      sin_port = load16 host (take 2 (drop 2 bs)),
      s_addr = load32 host (take 4 (drop 4 bs)),
      sin_zero = take 8 (drop 8 bs)\<rparr>"

definition ss_family :: "endian \<Rightarrow> byte list \<Rightarrow> 16 word" where
  "ss_family host st = load16 host (take 2 st)"

text \<open>The members of \<^verbatim>\<open>Address\<close>: \<^verbatim>\<open>_size\<close> is the field \<open>a_size\<close>, and
  \<^verbatim>\<open>_address.storage\<close> the field \<open>storage\<close>, the bytes of a \<^verbatim>\<open>sockaddr_storage\<close>.\<close>

record Address =
  a_size :: size_t
  storage :: "byte list"

text \<open>
  \<^verbatim>\<open>Address::Address(const sockaddr *addr, const size_t size)\<close>. The argument \<open>addr\<close> is
  the bytes of the object pointed to. The bytes the member \<^verbatim>\<open>_address.storage\<close> holds
  before the constructor body runs come from its declaration in \<^verbatim>\<open>address.hh\<close>, which is
  not among the sources: they are the parameter \<open>raw\<close>.
\<close>

definition Address_ctor :: "byte list \<Rightarrow> byte list \<Rightarrow> size_t \<Rightarrow> error + Address" where
  "Address_ctor raw addr size' =
     (if size' > sizeof_sockaddr_storage then Inl runtime_error
      else case memcpy raw addr size' of
             Inl e \<Rightarrow> Inl e
           | Inr st \<Rightarrow> Inr \<lparr>a_size = size', storage = st\<rparr>)"

definition ipv4_numeric :: "endian \<Rightarrow> Address \<Rightarrow> error + 32 word" where
  "ipv4_numeric host a =
     (if ss_family host (storage a) \<noteq> AF_INET \<or> a_size a \<noteq> sizeof_sockaddr_in
      then Inl runtime_error
      else case memcpy (bytes_of_sockaddr_in host sockaddr_in_zero) (storage a) (a_size a) of
             Inl e \<Rightarrow> Inl e
           | Inr bs \<Rightarrow> Inr (be32toh host (s_addr (sockaddr_in_of_bytes host bs))))"

definition from_ipv4_numeric :: "endian \<Rightarrow> byte list \<Rightarrow> 32 word \<Rightarrow> error + Address" where
  "from_ipv4_numeric host raw ip_address =
     (let ipv4_addr = sockaddr_in_zero\<lparr>sin_family := AF_INET, s_addr := htobe32 host ip_address\<rparr>
      in Address_ctor raw (bytes_of_sockaddr_in host ipv4_addr) sizeof_sockaddr_in)"

section \<open>Facts about sizes\<close>

lemma unat_string_size_le: "unat (string_size str) \<le> length str"
  by (simp add: string_size_def unat_of_nat)

lemma unat_le_string_size: "n \<le> string_size str \<Longrightarrow> unat n \<le> length str"
  using unat_string_size_le [of str] by (simp add: word_le_nat_alt)

lemma unat_min_string_size: "unat (min m (string_size str)) \<le> length str"
  by (rule unat_le_string_size) simp

section \<open>write\<close>

text \<open>
  C1. For every stream and every byte sequence \<open>data\<close>, \<open>write data\<close> returns
  \<open>n = min (remaining_capacity s) (data.size())\<close>; the buffer afterwards is the old buffer
  followed by the first \<open>n\<close> bytes of \<open>data\<close>, which are exactly \<open>n\<close> bytes, so the rest of
  \<open>data\<close> is dropped; \<open>bytes_written\<close> grows by \<open>n\<close> (in \<^verbatim>\<open>size_t\<close> arithmetic, and as a
  number whenever the counter does not pass \<open>2 ^ 64\<close>); capacity, \<open>bytes_read\<close> and the
  end-of-input flag are unchanged.
\<close>

theorem write_accepts_min:
  fixes s :: ByteStream and data :: string
  defines "n \<equiv> min (remaining_capacity s) (string_size data)"
  shows "fst (write data s) = n
    \<and> concatenate (dataStream (snd (write data s))) = concatenate (dataStream s) @ take (unat n) data
    \<and> length (take (unat n) data) = unat n
    \<and> data = take (unat n) data @ drop (unat n) data
    \<and> bytes_written (snd (write data s)) = bytes_written s + n
    \<and> (unat (bytes_written s) + unat n < 2 ^ 64 \<longrightarrow>
         unat (bytes_written (snd (write data s))) = unat (bytes_written s) + unat n)
    \<and> (length data < 2 ^ 64 \<longrightarrow> unat n = min (unat (remaining_capacity s)) (length data))
    \<and> bytes_read (snd (write data s)) = bytes_read s
    \<and> cap (snd (write data s)) = cap s
    \<and> input_ended (snd (write data s)) = input_ended s"
proof -
  have le: "unat n \<le> length data"
    unfolding n_def by (rule unat_min_string_size)
  have st: "snd (write data s) =
      s\<lparr>dataStream := dataStream s @ take (unat n) data, writeByte := writeByte s + n\<rparr>"
    and res: "fst (write data s) = n"
    by (simp_all add: write_def Let_def n_def append_def BufferList_of_def substr0_def)
  have wrap: "unat (bytes_written s) + unat n < 2 ^ 64 \<Longrightarrow>
      unat (bytes_written s + n) = unat (bytes_written s) + unat n"
    by (simp add: unat_add_lem [THEN iffD1])
  have small: "length data < 2 ^ 64 \<Longrightarrow> unat n = min (unat (remaining_capacity s)) (length data)"
  proof -
    assume "length data < 2 ^ 64"
    then have "unat (string_size data) = length data"
      by (simp add: string_size_def unat_of_nat)
    then show ?thesis
      by (simp add: n_def min_def word_le_nat_alt)
  qed
  show ?thesis
    using le res wrap small
    by (simp add: st concatenate_def bytes_written_def bytes_read_def input_ended_def)
qed

theorem write_accepts_min_witness:
  "fst (write ''abcdef'' (ByteStream_new 4)) = 4
   \<and> concatenate (dataStream (snd (write ''abcdef'' (ByteStream_new 4)))) = ''abcd''
   \<and> unat (bytes_written (ByteStream_new 4)) + unat (4 :: size_t) < 2 ^ 64
   \<and> unat (bytes_written (snd (write ''abcdef'' (ByteStream_new 4)))) = 4
   \<and> length ''abcdef'' < (2 :: nat) ^ 64
   \<and> min (unat (remaining_capacity (ByteStream_new 4))) (length ''abcdef'') = 4"
proof -
  have n: "min (remaining_capacity (ByteStream_new 4)) (string_size ''abcdef'') = 4"
    by (simp add: remaining_capacity_def buffer_size_def size_BufferList_def string_size_def
        ByteStream_new_def)
  show ?thesis
    using write_accepts_min [of "''abcdef''" "ByteStream_new 4"]
    by (simp add: n concatenate_def bytes_written_def ByteStream_new_def
        remaining_capacity_def buffer_size_def size_BufferList_def string_size_def)
qed

section \<open>Single calls\<close>


lemma peek_output_within:
  "len \<le> buffer_size s \<Longrightarrow> peek_output len s = Inr (take (unat len) (dataStream s))"
  by (simp add: peek_output_def concatenate_def buffer_size_def size_BufferList_def
      unat_le_string_size)

lemma pop_output_within:
  "len \<le> buffer_size s \<Longrightarrow>
   pop_output beyond len s =
     Inr (s\<lparr>dataStream := drop (unat len) (dataStream s), readByte := readByte s + len\<rparr>)"
  by (simp add: pop_output_def remove_prefix_def buffer_size_def size_BufferList_def
      unat_le_string_size)

lemma read_result:
  "read beyond len s =
     Inr (take (unat (min (buffer_size s) len)) (dataStream s),
          s\<lparr>dataStream := drop (unat (min (buffer_size s) len)) (dataStream s),
            readByte := readByte s + min (buffer_size s) len\<rparr>)"
  using peek_output_within [of "min (buffer_size s) len" s]
    pop_output_within [of "min (buffer_size s) len" s beyond]
  by (simp add: read_def Let_def buffer_size_def)

lemma buffer_size_new: "buffer_size (ByteStream_new capacity) = 0"
  by (simp add: buffer_size_def size_BufferList_def string_size_def ByteStream_new_def)

section \<open>peek_output\<close>

text \<open>
  C3, amended. For every stream and every \<open>len\<close> that is at most \<open>buffer_size\<close>,
  \<open>peek_output len\<close> returns exactly the first \<open>min len (buffer_size s)\<close> buffered bytes
  (that is, the first \<open>len\<close>) in FIFO order, and the call leaves the stream as it was:
  buffer contents, both counters and the end-of-input flag.
\<close>

theorem peek_output_returns_front:
  assumes "len \<le> buffer_size s"
  shows "peek_output len s = Inr (take (unat (min len (buffer_size s))) (concatenate (dataStream s)))
    \<and> length (take (unat (min len (buffer_size s))) (concatenate (dataStream s))) = unat len
    \<and> step beyond (Peek_output len) s = Inr s"
proof -
  from assms have m: "min len (buffer_size s) = len" by simp
  from assms have "unat len \<le> length (dataStream s)"
    by (simp add: buffer_size_def size_BufferList_def unat_le_string_size)
  then show ?thesis
    using peek_output_within [OF assms] by (simp add: m concatenate_def step_def)
qed

theorem peek_output_returns_front_witness:
  "(2 :: size_t) \<le> buffer_size (snd (write ''abcd'' (ByteStream_new 4)))
   \<and> peek_output 2 (snd (write ''abcd'' (ByteStream_new 4))) = Inr ''ab''
   \<and> step raises (Peek_output 2) (snd (write ''abcd'' (ByteStream_new 4)))
       = Inr (snd (write ''abcd'' (ByteStream_new 4)))"
proof -
  have w: "snd (write ''abcd'' (ByteStream_new 4)) =
      \<lparr>cap = 4, dataStream = ''abcd'', writeByte = 4, readByte = 0, m_end_input = False\<rparr>"
    by (simp add: write_def Let_def remaining_capacity_def buffer_size_def size_BufferList_def
        string_size_def ByteStream_new_def append_def BufferList_of_def substr0_def)
  have h: "(2 :: size_t) \<le> buffer_size (snd (write ''abcd'' (ByteStream_new 4)))"
    by (simp add: w buffer_size_def size_BufferList_def string_size_def)
  show ?thesis
    using h peek_output_returns_front [OF h, of raises]
    by (simp add: w concatenate_def buffer_size_def size_BufferList_def string_size_def)
qed

text \<open>On an empty stream \<open>peek_output 1\<close> returns the terminating zero byte and
  \<open>peek_output 5\<close> has no defined result; neither is the empty sequence of the first
  \<open>min len 0\<close> bytes.\<close>

theorem peek_output_beyond_counterexample:
  "peek_output 1 (ByteStream_new 4) = Inr [CHR 0x00]
   \<and> peek_output 5 (ByteStream_new 4) = Inl unsafe_read
   \<and> take (unat (min 5 (buffer_size (ByteStream_new 4)))) (concatenate (dataStream (ByteStream_new 4))) = []
   \<and> peek_output 1 (ByteStream_new 4) \<noteq>
       Inr (take (unat (min 1 (buffer_size (ByteStream_new 4)))) (concatenate (dataStream (ByteStream_new 4))))
   \<and> peek_output 5 (ByteStream_new 4) \<noteq>
       Inr (take (unat (min 5 (buffer_size (ByteStream_new 4)))) (concatenate (dataStream (ByteStream_new 4))))"
  by (simp add: peek_output_def concatenate_def ByteStream_new_def)

section \<open>pop_output\<close>

text \<open>
  C4, amended. For every stream and every \<open>len\<close> that is at most \<open>buffer_size\<close>,
  \<open>pop_output len\<close> returns without error, removes exactly \<open>len\<close> bytes (which is
  \<open>min len (buffer_size s)\<close>) from the front of the buffer and adds \<open>len\<close> to
  \<open>bytes_read\<close>; \<open>bytes_written\<close>, the capacity and the end-of-input flag are unchanged.
  This holds whatever \<^verbatim>\<open>BufferList::remove_prefix\<close> does past the end.
\<close>

theorem pop_output_removes_front:
  assumes "len \<le> buffer_size s"
  shows "\<exists>s'. pop_output beyond len s = Inr s'
    \<and> concatenate (dataStream s) = take (unat len) (concatenate (dataStream s)) @ concatenate (dataStream s')
    \<and> length (take (unat len) (concatenate (dataStream s))) = unat len
    \<and> unat len = min (unat len) (unat (buffer_size s))
    \<and> buffer_size s' = buffer_size s - len
    \<and> bytes_read s' = bytes_read s + len
    \<and> bytes_written s' = bytes_written s \<and> cap s' = cap s \<and> input_ended s' = input_ended s"
proof -
  from assms have le: "unat len \<le> length (dataStream s)"
    by (simp add: buffer_size_def size_BufferList_def unat_le_string_size)
  have "(of_nat (length (dataStream s) - unat len) :: size_t) = of_nat (length (dataStream s)) - len"
    using le by (simp add: of_nat_diff)
  then show ?thesis
    using pop_output_within [OF assms, of beyond] le assms
    by (simp add: concatenate_def buffer_size_def size_BufferList_def string_size_def
        bytes_read_def bytes_written_def input_ended_def word_le_nat_alt)
qed

theorem pop_output_removes_front_witness:
  "(2 :: size_t) \<le> buffer_size (snd (write ''abcd'' (ByteStream_new 4)))
   \<and> pop_output raises 2 (snd (write ''abcd'' (ByteStream_new 4))) =
       Inr \<lparr>cap = 4, dataStream = ''cd'', writeByte = 4, readByte = 2, m_end_input = False\<rparr>"
proof -
  have w: "snd (write ''abcd'' (ByteStream_new 4)) =
      \<lparr>cap = 4, dataStream = ''abcd'', writeByte = 4, readByte = 0, m_end_input = False\<rparr>"
    by (simp add: write_def Let_def remaining_capacity_def buffer_size_def size_BufferList_def
        string_size_def ByteStream_new_def append_def BufferList_of_def substr0_def)
  have h: "(2 :: size_t) \<le> buffer_size (snd (write ''abcd'' (ByteStream_new 4)))"
    by (simp add: w buffer_size_def size_BufferList_def string_size_def)
  from pop_output_removes_front [OF h, of raises]
  obtain s' where "pop_output raises 2 (snd (write ''abcd'' (ByteStream_new 4))) = Inr s'"
    by blast
  then show ?thesis
    using h by (simp add: w pop_output_def remove_prefix_def)
qed

text \<open>On an empty stream \<open>pop_output 1\<close> either ends in an error or adds 1 to
  \<open>bytes_read\<close>, never the 0 bytes it can remove.\<close>

theorem pop_output_beyond_counterexample:
  "\<forall>beyond. \<not> (\<exists>s'. pop_output beyond 1 (ByteStream_new 4) = Inr s'
      \<and> bytes_read s' = bytes_read (ByteStream_new 4) + min 1 (buffer_size (ByteStream_new 4)))"
  by (auto simp: pop_output_def remove_prefix_def ByteStream_new_def bytes_read_def
      buffer_size_def size_BufferList_def string_size_def split: sum.splits)

section \<open>read\<close>

text \<open>
  C5, amended. For every stream and every \<open>n\<close> that is at most \<open>buffer_size\<close>,
  \<open>peek_output n\<close> followed by \<open>pop_output n\<close> gives the same bytes and the same final
  stream as one call of \<open>read n\<close>: the first \<open>n\<close> bytes, and the stream without them and
  with \<open>n\<close> added to \<open>bytes_read\<close>.
\<close>

theorem peek_then_pop_is_read:
  assumes "n \<le> buffer_size s"
  shows "peek_then_pop beyond n s = read beyond n s
    \<and> read beyond n s =
        Inr (take (unat n) (dataStream s),
             s\<lparr>dataStream := drop (unat n) (dataStream s), readByte := readByte s + n\<rparr>)"
proof -
  from assms have m: "min (buffer_size s) n = n" by simp
  show ?thesis
    using peek_output_within [OF assms] pop_output_within [OF assms, of beyond]
      read_result [of beyond n s]
    by (simp add: m peek_then_pop_def)
qed

theorem peek_then_pop_is_read_witness:
  "(2 :: size_t) \<le> buffer_size (snd (write ''abcd'' (ByteStream_new 4)))
   \<and> peek_then_pop raises 2 (snd (write ''abcd'' (ByteStream_new 4))) =
       Inr (''ab'', \<lparr>cap = 4, dataStream = ''cd'', writeByte = 4, readByte = 2, m_end_input = False\<rparr>)
   \<and> read raises 2 (snd (write ''abcd'' (ByteStream_new 4))) =
       Inr (''ab'', \<lparr>cap = 4, dataStream = ''cd'', writeByte = 4, readByte = 2, m_end_input = False\<rparr>)"
proof -
  have w: "snd (write ''abcd'' (ByteStream_new 4)) =
      \<lparr>cap = 4, dataStream = ''abcd'', writeByte = 4, readByte = 0, m_end_input = False\<rparr>"
    by (simp add: write_def Let_def remaining_capacity_def buffer_size_def size_BufferList_def
        string_size_def ByteStream_new_def append_def BufferList_of_def substr0_def)
  have h: "(2 :: size_t) \<le> buffer_size (snd (write ''abcd'' (ByteStream_new 4)))"
    by (simp add: w buffer_size_def size_BufferList_def string_size_def)
  show ?thesis
    using h peek_then_pop_is_read [OF h, of raises] by (simp add: w)
qed

text \<open>On an empty stream \<open>read\<close> returns no bytes and changes nothing; \<open>peek_output 1\<close>
  returns one byte, and \<open>peek_output 5\<close> has no defined result.\<close>

theorem peek_then_pop_beyond_counterexample:
  "\<forall>beyond. peek_then_pop beyond 1 (ByteStream_new 4) \<noteq> read beyond 1 (ByteStream_new 4)
     \<and> peek_then_pop beyond 5 (ByteStream_new 4) \<noteq> read beyond 5 (ByteStream_new 4)"
  by (auto simp: read_result buffer_size_new peek_then_pop_def peek_output_def concatenate_def
      ByteStream_new_def split: sum.splits)

text \<open>
  C7. For every byte sequence \<open>data\<close> no longer than the capacity, writing \<open>data\<close> into
  a new stream accepts all of it, and reading its length back returns exactly \<open>data\<close>, in
  the original order, leaving the buffer empty.
\<close>

theorem write_then_read_round_trip:
  assumes "length data \<le> unat capacity"
  shows "fst (write data (ByteStream_new capacity)) = string_size data
    \<and> (\<exists>s'. read beyond (string_size data) (snd (write data (ByteStream_new capacity))) = Inr (data, s')
          \<and> buffer_size s' = 0)"
proof -
  have "unat capacity < 2 ^ LENGTH(64)"
    by (rule unsigned_less)
  with assms have lt: "length data < 2 ^ 64"
    by simp
  have u: "unat (string_size data) = length data"
    using lt by (simp add: string_size_def unat_of_nat)
  have le: "string_size data \<le> capacity"
    using assms by (simp add: word_le_nat_alt u)
  have n: "min (remaining_capacity (ByteStream_new capacity)) (string_size data) = string_size data"
  proof -
    have "cap (ByteStream_new capacity) = capacity"
      by (simp add: ByteStream_new_def)
    with le show ?thesis
      by (simp add: remaining_capacity_def buffer_size_new)
  qed
  have w: "write data (ByteStream_new capacity) =
      (string_size data, (ByteStream_new capacity)\<lparr>dataStream := data, writeByte := string_size data\<rparr>)"
    using n u by (simp add: write_def Let_def append_def BufferList_of_def substr0_def ByteStream_new_def)
  have e: "string_size [] = 0"
    by (simp add: string_size_def)
  show ?thesis
    by (simp add: w read_result buffer_size_def size_BufferList_def u e)
qed

theorem write_then_read_round_trip_witness:
  "length ''abc'' \<le> unat (4 :: size_t)
   \<and> fst (write ''abc'' (ByteStream_new 4)) = 3
   \<and> read raises (string_size ''abc'') (snd (write ''abc'' (ByteStream_new 4))) =
       Inr (''abc'', \<lparr>cap = 4, dataStream = [], writeByte = 3, readByte = 3, m_end_input = False\<rparr>)"
proof -
  have h: "length ''abc'' \<le> unat (4 :: size_t)" by simp
  have w: "snd (write ''abc'' (ByteStream_new 4)) =
      \<lparr>cap = 4, dataStream = ''abc'', writeByte = 3, readByte = 0, m_end_input = False\<rparr>"
    by (simp add: write_def Let_def remaining_capacity_def buffer_size_def size_BufferList_def
        string_size_def ByteStream_new_def append_def BufferList_of_def substr0_def)
  from write_then_read_round_trip [OF h, of raises]
  obtain s' where r: "read raises (string_size ''abc'') (snd (write ''abc'' (ByteStream_new 4))) = Inr (''abc'', s')"
    and f: "fst (write ''abc'' (ByteStream_new 4)) = string_size ''abc''"
    by blast
  from r have "s' = \<lparr>cap = 4, dataStream = [], writeByte = 3, readByte = 3, m_end_input = False\<rparr>"
    by (simp add: w read_result buffer_size_def size_BufferList_def string_size_def)
  with r f h show ?thesis by (simp add: string_size_def)
qed

section \<open>Construction\<close>

text \<open>
  C8, amended. Construction succeeds for every capacity, zero included, and yields a
  stream of that capacity with an empty buffer: \<open>buffer_size\<close>, \<open>bytes_written\<close> and
  \<open>bytes_read\<close> are 0 and \<open>input_ended\<close> is false.
\<close>

theorem construct_never_fails:
  "construct capacity = Inr (ByteStream_new capacity)
   \<and> cap (ByteStream_new capacity) = capacity
   \<and> concatenate (dataStream (ByteStream_new capacity)) = []
   \<and> buffer_size (ByteStream_new capacity) = 0
   \<and> bytes_written (ByteStream_new capacity) = 0
   \<and> bytes_read (ByteStream_new capacity) = 0
   \<and> input_ended (ByteStream_new capacity) = False"
  by (simp add: construct_def buffer_size_new)
    (simp add: ByteStream_new_def concatenate_def bytes_written_def bytes_read_def input_ended_def)

text \<open>Construction with capacity 0 does not fail.\<close>

theorem construct_zero_counterexample:
  "\<not> (\<exists>e. construct 0 = Inl e) \<and> construct 0 = Inr (ByteStream_new 0)
   \<and> remaining_capacity (ByteStream_new 0) = 0"
  by (simp add: construct_def remaining_capacity_def buffer_size_new) (simp add: ByteStream_new_def)

section \<open>write after end_input\<close>

text \<open>
  C10. \<open>write\<close> after \<open>end_input\<close> behaves as before it: the call returns the same count
  and leaves the same stream as it would without the flag (the flag staying set), the
  count is \<open>min (remaining_capacity) (data.size())\<close>, and \<open>bytes_written\<close> grows by it.
\<close>

theorem write_after_end_input:
  "write data (end_input s) = (fst (write data s), end_input (snd (write data s)))
   \<and> fst (write data (end_input s)) = min (remaining_capacity (end_input s)) (string_size data)
   \<and> remaining_capacity (end_input s) = remaining_capacity s
   \<and> bytes_written (snd (write data (end_input s))) =
       bytes_written (end_input s) + fst (write data (end_input s))
   \<and> input_ended (end_input s)"
  by (simp add: write_def Let_def end_input_def remaining_capacity_def buffer_size_def
      bytes_written_def input_ended_def)

section \<open>Invariants\<close>

lemma consistent_new: "consistent (ByteStream_new capacity)"
  by (simp add: consistent_def ByteStream_new_def)

lemma consistent_buffer_size:
  assumes "consistent s"
  shows "unat (buffer_size s) = length (dataStream s)"
proof -
  from assms have "length (dataStream s) \<le> unat (cap s)"
    by (simp add: consistent_def)
  then show ?thesis
    by (simp add: buffer_size_def size_BufferList_def string_size_def le_unat_uoi)
qed

lemma consistent_invariant:
  assumes "consistent s"
  shows "invariant s"
  using assms consistent_buffer_size [OF assms]
  by (simp add: invariant_def consistent_def word_le_nat_alt bytes_written_def bytes_read_def)
    (simp add: buffer_size_def size_BufferList_def string_size_def)

lemma consistent_write:
  assumes "consistent s"
  shows "consistent (snd (write data s))"
proof -
  define n where "n = min (remaining_capacity s) (string_size data)"
  have len: "length (dataStream s) \<le> unat (cap s)"
    and cnt: "writeByte s - readByte s = of_nat (length (dataStream s))"
    using assms by (simp_all add: consistent_def)
  have sz: "unat (buffer_size s) = length (dataStream s)"
    by (rule consistent_buffer_size [OF assms])
  have "buffer_size s \<le> cap s"
    using len sz by (simp add: word_le_nat_alt)
  then have rc: "unat (remaining_capacity s) = unat (cap s) - length (dataStream s)"
    by (simp add: remaining_capacity_def unat_sub sz)
  have "n \<le> remaining_capacity s"
    by (simp add: n_def)
  then have n1: "unat n \<le> unat (cap s) - length (dataStream s)"
    by (simp add: word_le_nat_alt rc)
  have n2: "unat n \<le> length data"
    unfolding n_def by (rule unat_min_string_size)
  have st: "snd (write data s) =
      s\<lparr>dataStream := dataStream s @ take (unat n) data, writeByte := writeByte s + n\<rparr>"
    by (simp add: write_def Let_def n_def append_def BufferList_of_def substr0_def)
  have "writeByte s + n - readByte s = of_nat (length (dataStream s)) + n"
    using cnt by (simp add: algebra_simps)
  also have "\<dots> = of_nat (length (dataStream s) + unat n)"
    by simp
  finally show ?thesis
    using len n1 n2 by (simp add: st consistent_def min_absorb2)
qed

lemma consistent_pop_output:
  assumes "consistent s" and "len \<le> buffer_size s"
  shows "consistent (s\<lparr>dataStream := drop (unat len) (dataStream s), readByte := readByte s + len\<rparr>)"
proof -
  have lenb: "length (dataStream s) \<le> unat (cap s)"
    and cnt: "writeByte s - readByte s = of_nat (length (dataStream s))"
    using assms(1) by (simp_all add: consistent_def)
  have le: "unat len \<le> length (dataStream s)"
    using assms(2) by (simp add: buffer_size_def size_BufferList_def unat_le_string_size)
  have "writeByte s - (readByte s + len) = of_nat (length (dataStream s)) - len"
    using cnt by (simp add: algebra_simps)
  also have "\<dots> = of_nat (length (dataStream s) - unat len)"
    using le by (simp add: of_nat_diff)
  finally show ?thesis
    using lenb by (simp add: consistent_def)
qed

lemma consistent_end_input: "consistent s \<Longrightarrow> consistent (end_input s)"
  by (simp add: consistent_def end_input_def)

lemma consistent_stream_after:
  assumes "consistent s" and "pop_within x s"
  shows "consistent (stream_after (step beyond x s))"
proof (cases x)
  case (Write data)
  then show ?thesis using assms by (simp add: step_def stream_after_def consistent_write)
next
  case (Peek_output len)
  then show ?thesis
    using assms by (simp add: step_def stream_after_def split: sum.splits)
next
  case (Pop_output len)
  then show ?thesis
    using assms by (simp add: step_def stream_after_def pop_output_within consistent_pop_output)
next
  case (Read len)
  have "min (buffer_size s) len \<le> buffer_size s" by simp
  then show ?thesis
    using Read assms(1) by (simp add: step_def stream_after_def read_result consistent_pop_output)
next
  case End_input
  then show ?thesis using assms by (simp add: step_def stream_after_def consistent_end_input)
qed

lemma consistent_run_caught:
  "consistent s \<Longrightarrow> pops_within beyond ops s \<Longrightarrow> consistent (run_caught beyond ops s)"
proof (induction ops arbitrary: s)
  case Nil
  then show ?case by simp
next
  case (Cons x xs)
  from Cons.prems have "pop_within x s"
    and rest: "pops_within beyond xs (stream_after (step beyond x s))"
    by simp_all
  with Cons.prems(1) have "consistent (stream_after (step beyond x s))"
    by (simp add: consistent_stream_after)
  from Cons.IH [OF this rest] show ?case by simp
qed

text \<open>
  C2, amended. After every sequence of \<open>write\<close>, \<open>peek_output\<close>, \<open>pop_output\<close>, \<open>read\<close> and
  \<open>end_input\<close> calls on a newly constructed stream in which each \<open>pop_output\<close> asks for
  at most \<open>buffer_size\<close> bytes, the stream satisfies \<open>0 \<le> buffer_size \<le> capacity\<close> and
  \<open>bytes_written - bytes_read = buffer_size\<close>, whatever \<^verbatim>\<open>BufferList::remove_prefix\<close> does
  past the end.
\<close>

theorem invariant_after_pops_within:
  assumes "pops_within beyond ops (ByteStream_new capacity)"
  shows "invariant (run_caught beyond ops (ByteStream_new capacity))"
  using consistent_run_caught [OF consistent_new assms] by (rule consistent_invariant)

theorem invariant_after_pops_within_witness:
  "pops_within drains
     [Write ''abcdef'', Peek_output 5, Pop_output 2, Write ''xy'', End_input, Read 10]
     (ByteStream_new 4)
   \<and> run_caught drains
       [Write ''abcdef'', Peek_output 5, Pop_output 2, Write ''xy'', End_input, Read 10]
       (ByteStream_new 4)
     = \<lparr>cap = 4, dataStream = [], writeByte = 6, readByte = 6, m_end_input = True\<rparr>
   \<and> invariant \<lparr>cap = 4, dataStream = [], writeByte = 6, readByte = 6, m_end_input = True\<rparr>"
proof -
  have r: "run_caught drains
       [Write ''abcdef'', Peek_output 5, Pop_output 2, Write ''xy'', End_input, Read 10]
       (ByteStream_new 4)
     = \<lparr>cap = 4, dataStream = [], writeByte = 6, readByte = 6, m_end_input = True\<rparr>"
    by (simp add: step_def stream_after_def write_def Let_def remaining_capacity_def
        buffer_size_def size_BufferList_def string_size_def ByteStream_new_def append_def
        BufferList_of_def substr0_def peek_output_def concatenate_def pop_output_def
        remove_prefix_def read_def end_input_def)
  have h: "pops_within drains
     [Write ''abcdef'', Peek_output 5, Pop_output 2, Write ''xy'', End_input, Read 10]
     (ByteStream_new 4)"
    by (simp add: step_def stream_after_def write_def Let_def remaining_capacity_def
        buffer_size_def size_BufferList_def string_size_def ByteStream_new_def append_def
        BufferList_of_def substr0_def peek_output_def concatenate_def pop_output_def
        remove_prefix_def read_def end_input_def)
  from invariant_after_pops_within [OF h] r h show ?thesis by simp
qed

text \<open>
  \<open>write\<close> of two bytes into a new stream of capacity 4, then \<open>pop_output 5\<close>, with a
  \<^verbatim>\<open>remove_prefix\<close> that consumes what the list holds before it raises: the exception
  skips \<^verbatim>\<open>readByte+=len\<close>, and the stream is left with an empty buffer, \<open>bytes_written\<close>
  at 2 and \<open>bytes_read\<close> at 0, so \<open>bytes_written - bytes_read\<close> is not \<open>buffer_size\<close>.
\<close>

theorem invariant_pop_beyond_counterexample:
  "pop_output drains 5 (snd (write ''ab'' (ByteStream_new 4)))
     = Inl (out_of_range,
         \<lparr>cap = 4, dataStream = [], writeByte = 2, readByte = 0, m_end_input = False\<rparr>)
   \<and> run_caught drains [Write ''ab'', Pop_output 5] (ByteStream_new 4)
     = \<lparr>cap = 4, dataStream = [], writeByte = 2, readByte = 0, m_end_input = False\<rparr>
   \<and> bytes_written (run_caught drains [Write ''ab'', Pop_output 5] (ByteStream_new 4))
       - bytes_read (run_caught drains [Write ''ab'', Pop_output 5] (ByteStream_new 4)) = 2
   \<and> buffer_size (run_caught drains [Write ''ab'', Pop_output 5] (ByteStream_new 4)) = 0
   \<and> \<not> invariant (run_caught drains [Write ''ab'', Pop_output 5] (ByteStream_new 4))"
  by (simp add: step_def stream_after_def write_def Let_def remaining_capacity_def
      buffer_size_def size_BufferList_def string_size_def ByteStream_new_def append_def
      BufferList_of_def substr0_def pop_output_def remove_prefix_def drains_def
      invariant_def bytes_written_def bytes_read_def)

text \<open>The same two calls with a \<^verbatim>\<open>remove_prefix\<close> that returns past the end: then
  \<^verbatim>\<open>readByte+=len\<close> runs, and \<open>bytes_read\<close> is 5 with \<open>bytes_written\<close> at 2.\<close>

lemma invariant_broken_when_remove_prefix_returns:
  assumes "beyond 5 ''ab'' = Inr d"
  shows "\<not> invariant (run_caught beyond [Write ''ab'', Pop_output 5] (ByteStream_new 4))"
proof
  define t where "t = run_caught beyond [Write ''ab'', Pop_output 5] (ByteStream_new 4)"
  assume "invariant (run_caught beyond [Write ''ab'', Pop_output 5] (ByteStream_new 4))"
  then have "buffer_size t \<le> cap t" and "bytes_written t - bytes_read t = buffer_size t"
    by (simp_all add: invariant_def t_def del: run_caught.simps)
  then have le: "bytes_written t - bytes_read t \<le> cap t"
    by (simp only:)
  have "t = \<lparr>cap = 4, dataStream = d, writeByte = 2, readByte = 5, m_end_input = False\<rparr>"
    using assms
    by (simp add: t_def step_def stream_after_def write_def Let_def remaining_capacity_def
        buffer_size_def size_BufferList_def string_size_def ByteStream_new_def append_def
        BufferList_of_def substr0_def pop_output_def remove_prefix_def)
  with le have "(- 3 :: size_t) \<le> 4"
    by (simp add: bytes_written_def bytes_read_def)
  moreover have "(- 3 :: size_t) = 18446744073709551613"
    by simp
  ultimately have "(18446744073709551613 :: size_t) \<le> 4"
    by (simp only:)
  then show False
    by simp
qed

section \<open>End of stream\<close>

lemma step_end_flag:
  assumes "step beyond x s = Inr s'"
  shows "m_end_input s' = (m_end_input s \<or> x = End_input)"
proof (cases x)
  case (Write data)
  with assms show ?thesis by (auto simp: step_def write_def Let_def)
next
  case (Peek_output len)
  with assms show ?thesis by (auto simp: step_def split: sum.splits)
next
  case (Pop_output len)
  with assms show ?thesis by (auto simp: step_def pop_output_def split: sum.splits)
next
  case (Read len)
  with assms show ?thesis by (auto simp: step_def read_result)
next
  case End_input
  with assms show ?thesis by (auto simp: step_def end_input_def)
qed

lemma run_end_flag:
  "run beyond ops s = Inr s' \<Longrightarrow> m_end_input s' = (m_end_input s \<or> End_input \<in> set ops)"
proof (induction ops arbitrary: s)
  case Nil
  then show ?case by simp
next
  case (Cons x xs)
  from Cons.prems obtain s1 where s1: "step beyond x s = Inr s1" and r: "run beyond xs s1 = Inr s'"
    by (auto split: sum.splits)
  from Cons.IH [OF r] step_end_flag [OF s1] show ?case by auto
qed

lemma eof_write:
  assumes "eof s"
  shows "eof (snd (write data s)) = (fst (write data s) = 0)"
proof -
  define n where "n = min (remaining_capacity s) (string_size data)"
  have st: "snd (write data s) =
      s\<lparr>dataStream := dataStream s @ take (unat n) data, writeByte := writeByte s + n\<rparr>"
    and res: "fst (write data s) = n"
    by (simp_all add: write_def Let_def n_def append_def BufferList_of_def substr0_def)
  have le: "unat n \<le> length data"
    unfolding n_def by (rule unat_min_string_size)
  from assms have z: "(of_nat (length (dataStream s)) :: size_t) = 0" and e: "m_end_input s"
    by (simp_all add: eof_def buffer_empty_def buffer_size_def size_BufferList_def
        string_size_def input_ended_def)
  have "buffer_size (snd (write data s)) = of_nat (length (dataStream s)) + of_nat (unat n)"
    using le by (simp add: st buffer_size_def size_BufferList_def string_size_def min_absorb2)
  also have "\<dots> = n"
    by (simp add: z)
  finally show ?thesis
    using e by (simp add: res eof_def buffer_empty_def input_ended_def st)
qed

lemma eof_step:
  assumes "eof s" and "within x s" and "accepts_nothing x s"
  shows "\<exists>s'. step beyond x s = Inr s' \<and> eof s'"
proof (cases x)
  case (Write data)
  with assms eof_write [OF assms(1), of data] show ?thesis by (simp add: step_def)
next
  case (Peek_output len)
  with assms show ?thesis by (simp add: step_def peek_output_within)
next
  case (Pop_output len)
  with assms have "len = 0"
    by (simp add: eof_def buffer_empty_def)
  with Pop_output assms(1) show ?thesis
    by (simp add: step_def pop_output_def remove_prefix_def eof_def buffer_empty_def
        buffer_size_def input_ended_def)
next
  case (Read len)
  from assms(1) have "min (buffer_size s) len = 0"
    by (simp add: eof_def buffer_empty_def)
  with Read assms(1) show ?thesis
    by (simp add: step_def read_result eof_def buffer_empty_def buffer_size_def input_ended_def)
next
  case End_input
  with assms show ?thesis
    by (simp add: step_def end_input_def eof_def buffer_empty_def buffer_size_def input_ended_def)
qed

lemma eof_run:
  "eof s \<Longrightarrow> calls_satisfy (\<lambda>x u. within x u \<and> accepts_nothing x u) beyond ops s \<Longrightarrow>
   \<exists>s'. run beyond ops s = Inr s' \<and> eof s'"
proof (induction ops arbitrary: s)
  case Nil
  then show ?case by simp
next
  case (Cons x xs)
  from Cons.prems have "within x s" and "accepts_nothing x s" by simp_all
  with Cons.prems(1) obtain s1 where s1: "step beyond x s = Inr s1" "eof s1"
    using eof_step by blast
  with Cons.prems have "calls_satisfy (\<lambda>x u. within x u \<and> accepts_nothing x u) beyond xs s1"
    by simp
  with Cons.IH s1 show ?case by simp
qed

text \<open>
  C6, amended. In every state reached from a new stream, \<open>eof\<close> is true iff \<open>end_input\<close>
  has been called before and \<open>buffer_size\<close> is 0. Once \<open>eof\<close> holds it holds after every
  later sequence of calls in which no \<open>write\<close> accepts a byte (and \<open>peek_output\<close> and
  \<open>pop_output\<close> stay within the buffer); \<open>write\<close> is not blocked after \<open>end_input\<close>, and a
  \<open>write\<close> in an \<open>eof\<close> state leaves \<open>eof\<close> true exactly when it accepts no byte.
\<close>

theorem eof_iff_and_stays:
  "(run beyond ops (ByteStream_new capacity) = Inr s \<longrightarrow>
      eof s = (End_input \<in> set ops \<and> buffer_size s = 0))
   \<and> (eof t \<and> calls_satisfy (\<lambda>x u. within x u \<and> accepts_nothing x u) beyond ops' t \<longrightarrow>
        (\<exists>t'. run beyond ops' t = Inr t' \<and> eof t'))
   \<and> (eof t \<longrightarrow> eof (snd (write data t)) = (fst (write data t) = 0))"
proof (intro conjI impI)
  assume "run beyond ops (ByteStream_new capacity) = Inr s"
  from run_end_flag [OF this] have "m_end_input s = (End_input \<in> set ops)"
    by (simp add: ByteStream_new_def)
  then show "eof s = (End_input \<in> set ops \<and> buffer_size s = 0)"
    by (simp add: eof_def input_ended_def buffer_empty_def)
next
  assume "eof t \<and> calls_satisfy (\<lambda>x u. within x u \<and> accepts_nothing x u) beyond ops' t"
  then show "\<exists>t'. run beyond ops' t = Inr t' \<and> eof t'"
    using eof_run by blast
next
  assume "eof t"
  then show "eof (snd (write data t)) = (fst (write data t) = 0)"
    by (rule eof_write)
qed

lemmas model_defs = step_def write_def Let_def remaining_capacity_def buffer_size_def
        size_BufferList_def string_size_def ByteStream_new_def append_def BufferList_of_def
        substr0_def peek_output_def concatenate_def pop_output_def remove_prefix_def read_def
        end_input_def

theorem eof_iff_and_stays_witness:
  "run raises [Write ''ab'', End_input, Read 2] (ByteStream_new 4)
     = Inr \<lparr>cap = 4, dataStream = [], writeByte = 2, readByte = 2, m_end_input = True\<rparr>
   \<and> eof \<lparr>cap = 4, dataStream = [], writeByte = 2, readByte = 2, m_end_input = True\<rparr>
   \<and> End_input \<in> set [Write ''ab'', End_input, Read 2]
   \<and> calls_satisfy (\<lambda>x u. within x u \<and> accepts_nothing x u) raises
        [Read 1, Peek_output 0, Pop_output 0, Write [], End_input]
        \<lparr>cap = 4, dataStream = [], writeByte = 2, readByte = 2, m_end_input = True\<rparr>
   \<and> (\<exists>t'. run raises [Read 1, Peek_output 0, Pop_output 0, Write [], End_input]
          \<lparr>cap = 4, dataStream = [], writeByte = 2, readByte = 2, m_end_input = True\<rparr> = Inr t'
        \<and> eof t')
   \<and> fst (write ''a'' \<lparr>cap = 4, dataStream = [], writeByte = 2, readByte = 2, m_end_input = True\<rparr>) = 1
   \<and> \<not> eof (snd (write ''a''
        \<lparr>cap = 4, dataStream = [], writeByte = 2, readByte = 2, m_end_input = True\<rparr>))"
proof -
  let ?S = "\<lparr>cap = 4, dataStream = [], writeByte = 2, readByte = 2, m_end_input = True\<rparr>"
  have r: "run raises [Write ''ab'', End_input, Read 2] (ByteStream_new 4) = Inr ?S"
    by (simp add: model_defs)
  have c: "calls_satisfy (\<lambda>x u. within x u \<and> accepts_nothing x u) raises
        [Read 1, Peek_output 0, Pop_output 0, Write [], End_input] ?S"
    by (simp add: model_defs)
  have f: "fst (write ''a'' ?S) = 1"
    by (simp add: model_defs)
  from eof_iff_and_stays [of raises "[Write ''ab'', End_input, Read 2]" 4 ?S ?S
      "[Read 1, Peek_output 0, Pop_output 0, Write [], End_input]" "''a''"] r c f
  show ?thesis
    by (simp add: buffer_size_def size_BufferList_def string_size_def)
qed

text \<open>After \<open>end_input\<close> on a new stream of capacity 4, \<open>eof\<close> holds; a \<open>write\<close> of one
  byte then makes it false again.\<close>

theorem eof_reverts_counterexample:
  "eof (end_input (ByteStream_new 4))
   \<and> \<not> eof (snd (write ''a'' (end_input (ByteStream_new 4))))"
  by (simp add: eof_def input_ended_def buffer_empty_def model_defs)

section \<open>Address: the numeric IPv4 round trip\<close>

lemma load16_store16_le: "load16_le (store16_le w) = w"
proof -
  have "(ucast (ucast w :: byte) :: 16 word) OR push_bit 8 (ucast (ucast (drop_bit 8 w) :: byte)) = w"
    by (rule bit_word_eqI) (auto simp add: bit_simps)
  then show ?thesis by simp
qed

lemma load32_store32_le: "load32_le (store32_le w) = w"
proof -
  have "(ucast (ucast w :: byte) :: 32 word) OR push_bit 8 (ucast (ucast (drop_bit 8 w) :: byte))
      OR push_bit 16 (ucast (ucast (drop_bit 16 w) :: byte))
      OR push_bit 24 (ucast (ucast (drop_bit 24 w) :: byte)) = w"
  proof (rule bit_word_eqI)
    fix n :: nat
    assume "n < LENGTH(32)"
    then consider "n < 8" | "8 \<le> n" "n < 16" | "16 \<le> n" "n < 24" | "24 \<le> n" "n < 32"
      by fastforce
    then show "bit ((ucast (ucast w :: byte) :: 32 word)
        OR push_bit 8 (ucast (ucast (drop_bit 8 w) :: byte))
        OR push_bit 16 (ucast (ucast (drop_bit 16 w) :: byte))
        OR push_bit 24 (ucast (ucast (drop_bit 24 w) :: byte))) n = bit w n"
      by cases (auto simp add: bit_simps)
  qed
  then show ?thesis by simp
qed

lemma load16_store16: "load16 host (store16 host w) = w"
  using load16_store16_le [of w]
  by (cases host) (simp_all add: load16_def store16_def del: store16_le.simps)

lemma load32_store32: "load32 host (store32 host w) = w"
  using load32_store32_le [of w]
  by (cases host) (simp_all add: load32_def store32_def del: store32_le.simps)

lemma length_store16: "length (store16 host w) = 2"
  by (cases host) (simp_all add: store16_def)

lemma length_store32: "length (store32 host w) = 4"
  by (cases host) (simp_all add: store32_def)

lemma byte_masks:
  "(0xff :: 32 word) = mask 8"
  "(0xff00 :: 32 word) = push_bit 8 (mask 8)"
  "(0xff0000 :: 32 word) = push_bit 16 (mask 8)"
  "(0xff000000 :: 32 word) = push_bit 24 (mask 8)"
  by (simp_all add: mask_eq_exp_minus_1 push_bit_eq_mult)

lemma bswap_32_involution: "bswap_32 (bswap_32 x) = x"
proof (rule bit_word_eqI)
  fix n :: nat
  assume "n < LENGTH(32)"
  then consider "n < 8" | "8 \<le> n" "n < 16" | "16 \<le> n" "n < 24" | "24 \<le> n" "n < 32"
    by fastforce
  then show "bit (bswap_32 (bswap_32 x)) n = bit x n"
    by cases (auto simp add: bswap_32_def byte_masks bit_simps)
qed

lemma be32toh_htobe32: "be32toh host (htobe32 host x) = x"
  by (cases host) (simp_all add: be32toh_def htobe32_def bswap_32_involution)

lemma sockaddr_in_round_trip:
  assumes "length (sin_zero sa) = 8"
  shows "length (bytes_of_sockaddr_in host sa) = 16"
    and "sockaddr_in_of_bytes host (bytes_of_sockaddr_in host sa) = sa"
    and "ss_family host (bytes_of_sockaddr_in host sa @ rest) = sin_family sa"
  using assms
  by (simp_all add: bytes_of_sockaddr_in_def sockaddr_in_of_bytes_def ss_family_def
      length_store16 length_store32 load16_store16 load32_store32)

text \<open>
  C9. For every 32-bit unsigned integer \<open>x\<close>, on a host of either byte order,
  \<open>from_ipv4_numeric x\<close> succeeds (the address storage being the 128 bytes of a
  \<^verbatim>\<open>sockaddr_storage\<close>), and \<open>ipv4_numeric\<close> of the resulting address returns \<open>x\<close>.
\<close>

theorem ipv4_numeric_round_trip:
  assumes "length raw = unat sizeof_sockaddr_storage"
  shows "\<exists>a. from_ipv4_numeric host raw x = Inr a \<and> ipv4_numeric host a = Inr x"
proof -
  define sa where "sa = sockaddr_in_zero\<lparr>sin_family := AF_INET, s_addr := htobe32 host x\<rparr>"
  define bs where "bs = bytes_of_sockaddr_in host sa"
  have z: "length (sin_zero sa) = 8"
    by (simp add: sa_def sockaddr_in_zero_def)
  have lz: "length (bytes_of_sockaddr_in host sockaddr_in_zero) = 16"
    by (rule sockaddr_in_round_trip(1)) (simp add: sockaddr_in_zero_def)
  have lb: "length bs = 16"
    unfolding bs_def by (rule sockaddr_in_round_trip(1) [OF z])
  have lr: "length raw = 128"
    using assms by (simp add: sizeof_sockaddr_storage_def)
  have c: "from_ipv4_numeric host raw x = Inr \<lparr>a_size = 16, storage = bs @ drop 16 raw\<rparr>"
    using lb lr
    by (simp add: from_ipv4_numeric_def Let_def Address_ctor_def memcpy_def
        sizeof_sockaddr_in_def sizeof_sockaddr_storage_def sa_def [symmetric] bs_def [symmetric])
  have f: "ss_family host (bs @ drop 16 raw) = AF_INET"
    unfolding bs_def by (simp add: sockaddr_in_round_trip(3) [OF z]) (simp add: sa_def)
  have "sockaddr_in_of_bytes host bs = sa"
    unfolding bs_def by (rule sockaddr_in_round_trip(2) [OF z])
  then have "ipv4_numeric host \<lparr>a_size = 16, storage = bs @ drop 16 raw\<rparr> = Inr x"
    using lb lz f
    by (simp add: ipv4_numeric_def memcpy_def sizeof_sockaddr_in_def be32toh_htobe32 sa_def)
  with c show ?thesis by simp
qed

theorem ipv4_numeric_round_trip_witness:
  "length (replicate 128 (0 :: byte)) = unat sizeof_sockaddr_storage
   \<and> (\<exists>a. from_ipv4_numeric Little (replicate 128 0) 0xC0A80001 = Inr a
          \<and> storage a = [2, 0, 0, 0, 0xC0, 0xA8, 0, 1] @ replicate 120 0
          \<and> ipv4_numeric Little a = Inr 0xC0A80001)"
proof -
  have h: "length (replicate 128 (0 :: byte)) = unat sizeof_sockaddr_storage"
    by (simp add: sizeof_sockaddr_storage_def)
  from ipv4_numeric_round_trip [OF h, of Little "0xC0A80001"]
  obtain a where a: "from_ipv4_numeric Little (replicate 128 0) 0xC0A80001 = Inr a"
    and n: "ipv4_numeric Little a = Inr 0xC0A80001"
    by blast
  have "from_ipv4_numeric Little (replicate 128 0) 0xC0A80001 =
      Inr \<lparr>a_size = 16, storage = [2, 0, 0, 0, 0xC0, 0xA8, 0, 1] @ replicate 120 0\<rparr>"
    by (simp add: from_ipv4_numeric_def Let_def Address_ctor_def memcpy_def
        sizeof_sockaddr_in_def sizeof_sockaddr_storage_def sockaddr_in_zero_def AF_INET_def
        bytes_of_sockaddr_in_def store16_def store32_def htobe32_def bswap_32_def
        replicate_add [symmetric] del: replicate_add)
  with a n h show ?thesis by auto
qed

end
